theory Spec2Isabelle
  imports
    Complex_Main
    "HOL-Library.Word"
    "HOL-Library.Multiset"
    "HOL-Library.Signed_Division"
    "HOL-Library.Char_ord"
    "HOL-Library.List_Lexorder"
begin

unbundle bit_operations_syntax

section \<open>Values of the host language\<close>

text \<open>
  The program is TypeScript. Its values are modelled as follows.
  \<^item> A \<^verbatim>\<open>Uint8Array\<close> is a list of 8-bit words.
  \<^item> A \<^verbatim>\<open>number\<close> that the code only ever uses as an integer (timestamps in
    milliseconds, seconds, steps, periods after normalisation, orders) is an \<open>int\<close>.
    The divisions \<^verbatim>\<open>Math.floor(a / b)\<close> of the code are exact on such values as long
    as they stay inside the range where doubles represent integers exactly.
  \<^item> A \<^verbatim>\<open>number\<close> that reaches a normalisation function unchecked is a \<open>jsnum\<close>:
    a finite value, or one of the three non-finite doubles.
  \<^item> The operands of the bitwise operators are 32-bit integers: \<open>32 word\<close>, read
    back as a number with \<open>sint\<close>. A \<^verbatim>\<open>BigInt\<close> is an \<open>int\<close>.
  \<^item> A string is a list of code units; only the code units 0 to 255 are modelled
    (\<open>char\<close>), which covers ASCII and Latin-1.
  \<^item> \<^verbatim>\<open>undefined\<close> and \<^verbatim>\<open>null\<close> are \<open>None\<close>.
\<close>

type_synonym byte = "8 word"
type_synonym int32 = "32 word"

datatype jsnum = Finite real | NaN | PosInf | NegInf

text \<open>Reading a typed array at an index: \<^verbatim>\<open>undefined\<close> outside of it.\<close>

definition u8_at :: "byte list \<Rightarrow> int \<Rightarrow> byte option" where
  "u8_at xs i = (if 0 \<le> i \<and> i < int (length xs) then Some (xs ! nat i) else None)"

text \<open>The conversion the bitwise operators apply to an operand: \<^verbatim>\<open>undefined\<close> is 0.\<close>

definition toInt32 :: "byte option \<Rightarrow> int32" where
  "toInt32 v = (case v of None \<Rightarrow> 0 | Some b \<Rightarrow> ucast b)"

text \<open>The byte whose conversion that is: 0 for \<^verbatim>\<open>undefined\<close>.\<close>

definition byte_or0 :: "byte option \<Rightarrow> byte" where
  "byte_or0 v = (case v of None \<Rightarrow> 0 | Some b \<Rightarrow> b)"

text \<open>\<^verbatim>\<open>view.subarray(begin, end)\<close> for non-negative bounds: both are clamped to the length.\<close>

definition subarray :: "byte list \<Rightarrow> nat \<Rightarrow> nat \<Rightarrow> byte list" where
  "subarray xs b e = drop b (take e xs)"

text \<open>
  \<^verbatim>\<open>n.toString()\<close> for an integer \<open>n\<close> of magnitude below \<open>10^21\<close> (no exponent is
  printed there), and \<^verbatim>\<open>s.padStart(n, c)\<close>.
\<close>

fun decimal :: "nat \<Rightarrow> string" where
  "decimal n =
     (if n < 10 then [char_of (48 + n)]
      else decimal (n div 10) @ [char_of (48 + n mod 10)])"

declare decimal.simps [simp del]

definition toString :: "int \<Rightarrow> string" where
  "toString n = (if n < 0 then CHR ''-'' # decimal (nat (- n)) else decimal (nat n))"

definition padStart :: "string \<Rightarrow> nat \<Rightarrow> char \<Rightarrow> string" where
  "padStart s n c = replicate (n - length s) c @ s"

section \<open>totp.ts: the code engine\<close>

datatype TOTPHashAlg = SHA1 | SHA256

record TOTPOptions =
  o_secret :: "byte list"
  o_period :: "jsnum option"
  o_digits :: "jsnum option"
  o_algorithm :: "string option"
  o_timestamp :: "int option"

record TOTPWindow =
  w_prev :: string
  w_current :: string
  w_next :: string
  w_remainingSeconds :: int
  w_step :: int
  w_period :: int
  w_digits :: nat
  w_algorithm :: TOTPHashAlg

text \<open>
  \<^verbatim>\<open>s.toUpperCase()\<close> on the modelled code units. Besides the ASCII letters, the
  Latin-1 letters \<open>0xE0\<close> to \<open>0xFE\<close> (without the division sign \<open>0xF7\<close>) move
  down by 32, and the sharp s \<open>0xDF\<close> becomes the two letters \<open>SS\<close>. The upper-case
  forms of \<open>0xB5\<close> and \<open>0xFF\<close> lie beyond code unit 255; they are left in place
  here, which keeps them outside of every ASCII alphabet as their real images are.
\<close>

definition upperChar :: "char \<Rightarrow> string" where
  "upperChar c =
     (let n = (of_char c :: nat) in
      if 97 \<le> n \<and> n \<le> 122 then [char_of (n - 32)]
      else if n = 223 then ''SS''
      else if 224 \<le> n \<and> n \<le> 254 \<and> n \<noteq> 247 then [char_of (n - 32)]
      else [c])"

definition toUpperCase :: "string \<Rightarrow> string" where
  "toUpperCase s = concat (map upperChar s)"

definition normalizeAlg :: "string option \<Rightarrow> TOTPHashAlg" where
  "normalizeAlg alg =
     (case alg of
        None \<Rightarrow> SHA1
      | Some a \<Rightarrow>
          if a = [] then SHA1
          else let up = toUpperCase a in
            if up = ''SHA1'' \<or> up = ''SHA-1'' then SHA1
            else if up = ''SHA256'' \<or> up = ''SHA-256'' then SHA256
            else SHA1)"

definition normalizeDigits :: "jsnum option \<Rightarrow> nat" where
  "normalizeDigits d = (if d = Some (Finite 8) then 8 else 6)"

definition normalizePeriod :: "jsnum option \<Rightarrow> int" where
  "normalizePeriod p =
     (let period = (case p of Some (Finite x) \<Rightarrow> \<lfloor>x\<rfloor> | _ \<Rightarrow> 30)
      in min 300 (max 5 period))"

text \<open>
  \<open>stepAt\<close> and \<open>secondsRemaining\<close> divide by the period. The program calls them
  with a normalised period, which is at least 5; the period 0, for which the source
  computes with infinities, is outside of what these two definitions model.
\<close>

definition stepAt :: "int \<Rightarrow> int \<Rightarrow> int" where
  "stepAt timestampMs period =
     (let seconds = timestampMs div 1000 in seconds div period)"

text \<open>
  The remainder operator \<^verbatim>\<open>%\<close> of the source takes the sign of its left operand:
  it is \<open>smod\<close>, not \<open>mod\<close>.
\<close>

definition secondsRemaining :: "int \<Rightarrow> int \<Rightarrow> int" where
  "secondsRemaining timestampMs period =
     (let seconds = timestampMs div 1000 in period - (seconds smod period) - 1)"

text \<open>
  The loop \<^verbatim>\<open>for (let i = 7; i >= 0; i--)\<close>: the first argument is \<open>i + 1\<close>.
\<close>

fun numberTo8ByteBE_loop :: "nat \<Rightarrow> int \<Rightarrow> byte list \<Rightarrow> byte list" where
  "numberTo8ByteBE_loop 0 v bytes = bytes"
| "numberTo8ByteBE_loop (Suc i) v bytes =
     numberTo8ByteBE_loop i (drop_bit 8 v) (bytes[i := word_of_int (v AND 0xff)])"

definition numberTo8ByteBE :: "int \<Rightarrow> byte list" where
  "numberTo8ByteBE n = numberTo8ByteBE_loop 8 n (replicate 8 0)"

definition dynamicTruncate :: "byte list \<Rightarrow> int" where
  "dynamicTruncate hmacBytes =
     (let offset = toInt32 (u8_at hmacBytes (int (length hmacBytes) - 1)) AND 0x0f;
          p = subarray hmacBytes (unat offset) (unat offset + 4);
          binCode = ((push_bit 24 (toInt32 (u8_at p 0) AND 0x7f)
                        OR push_bit 16 (toInt32 (u8_at p 1)))
                        OR push_bit 8 (toInt32 (u8_at p 2)))
                        OR toInt32 (u8_at p 3)
      in sint binCode)"

definition padDigits :: "int \<Rightarrow> nat \<Rightarrow> string" where
  "padDigits n digits =
     (let m = (if digits = 8 then 100000000 else 1000000);
          code = n smod m
      in padStart (toString code) digits (CHR ''0''))"

text \<open>
  The keyed hash is the platform's (\<^verbatim>\<open>crypto.subtle.sign\<close>); it is a parameter
  \<open>hmac key data alg\<close> of everything that signs.
\<close>

type_synonym hmac_fn = "byte list \<Rightarrow> byte list \<Rightarrow> TOTPHashAlg \<Rightarrow> byte list"

definition generateTOTPForStep ::
  "hmac_fn \<Rightarrow> byte list \<Rightarrow> int \<Rightarrow> nat \<Rightarrow> TOTPHashAlg \<Rightarrow> string" where
  "generateTOTPForStep hmac secret step digits algorithm =
     (let moving = numberTo8ByteBE step;
          mac = hmac secret moving algorithm;
          binCode = dynamicTruncate mac
      in padDigits binCode digits)"

text \<open>\<open>now\<close> is the reading of the clock (\<^verbatim>\<open>Date.now()\<close>).\<close>

definition generateTOTPWindow :: "hmac_fn \<Rightarrow> int \<Rightarrow> TOTPOptions \<Rightarrow> TOTPWindow" where
  "generateTOTPWindow hmac now opts =
     (let period = normalizePeriod (o_period opts);
          digits = normalizeDigits (o_digits opts);
          alg = normalizeAlg (o_algorithm opts);
          ts = (case o_timestamp opts of Some t \<Rightarrow> t | None \<Rightarrow> now);
          step = stepAt ts period
      in \<lparr> w_prev = generateTOTPForStep hmac (o_secret opts) (step - 1) digits alg,
           w_current = generateTOTPForStep hmac (o_secret opts) step digits alg,
           w_next = generateTOTPForStep hmac (o_secret opts) (step + 1) digits alg,
           w_remainingSeconds = secondsRemaining ts period,
           w_step = step,
           w_period = period,
           w_digits = digits,
           w_algorithm = alg \<rparr>)"

section \<open>otpauth.ts: Base32 and the otpauth URI\<close>

text \<open>
  Every \<^verbatim>\<open>throw\<close> of the program is a value of \<open>error\<close>. The names follow the
  messages of the source; in the words of the specification \<open>MalformedUrl\<close> is
  MalformedUri, \<open>OnlyTOTPSupported\<close> is UnsupportedType, \<open>MissingSecretParameter\<close> is
  MissingSecret, \<open>InvalidBase32Character\<close> is InvalidCharacter and \<open>SecretNotFound\<close> is
  NotFound. \<open>URIError\<close> is raised by \<^verbatim>\<open>decodeURIComponent\<close>, \<open>ConstraintError\<close> by
  the object store when a key exists already, \<open>DataError\<close> by the import of a key of
  a wrong length, and \<open>AuthenticationFailure\<close> by the authenticated cipher when the
  tag does not verify.
\<close>

datatype error =
    MalformedUrl
  | ProtocolMustBeOtpauth
  | OnlyTOTPSupported
  | MissingSecretParameter
  | InvalidBase32Character char
  | URIError
  | SecretNotFound
  | ConstraintError
  | DataError
  | AuthenticationFailure

text \<open>
  The white space of \<^verbatim>\<open>trim\<close> and of the pattern \<^verbatim>\<open>\s\<close> among the modelled code
  units: tab, line feed, vertical tab, form feed, carriage return, space and the
  no-break space.
\<close>

definition isSpace :: "char \<Rightarrow> bool" where
  "isSpace c = (let n = (of_char c :: nat) in (9 \<le> n \<and> n \<le> 13) \<or> n = 32 \<or> n = 160)"

definition trim :: "string \<Rightarrow> string" where
  "trim s = rev (dropWhile isSpace (rev (dropWhile isSpace s)))"

text \<open>\<^verbatim>\<open>s.indexOf(c)\<close> for a single character, and \<^verbatim>\<open>s.slice(b, e)\<close>, \<^verbatim>\<open>s.slice(b)\<close>.\<close>

definition indexOf :: "string \<Rightarrow> char \<Rightarrow> int" where
  "indexOf s c = (if c \<in> set s then int (length (takeWhile (\<lambda>x. x \<noteq> c) s)) else - 1)"

definition slice :: "string \<Rightarrow> int \<Rightarrow> int \<Rightarrow> string" where
  "slice s b e =
     (let n = int (length s);
          b' = (if b < 0 then max 0 (n + b) else min b n);
          e' = (if e < 0 then max 0 (n + e) else min e n)
      in drop (nat b') (take (nat e') s))"

definition sliceFrom :: "string \<Rightarrow> int \<Rightarrow> string" where
  "sliceFrom s b = slice s b (int (length s))"

text \<open>\<^verbatim>\<open>s.toLowerCase()\<close> on the modelled code units.\<close>

definition lowerChar :: "char \<Rightarrow> char" where
  "lowerChar c =
     (let n = (of_char c :: nat) in
      if 65 \<le> n \<and> n \<le> 90 then char_of (n + 32)
      else if 192 \<le> n \<and> n \<le> 222 \<and> n \<noteq> 215 then char_of (n + 32)
      else c)"

definition toLowerCase :: "string \<Rightarrow> string" where
  "toLowerCase s = map lowerChar s"

record ParsedTOTPEntry =
  p_label :: string
  p_issuer :: "string option"
  p_secretBytes :: "byte list"
  p_algorithm :: TOTPHashAlg
  p_digits :: nat
  p_period :: int

record SplitLabel =
  sl_label :: string
  sl_issuerFromLabel :: "string option"

definition splitLabel :: "string \<Rightarrow> SplitLabel" where
  "splitLabel labelRaw =
     (let cleaned = trim labelRaw;
          idx = indexOf cleaned (CHR '':'')
      in if idx > 0 then
           (let issuer = trim (slice cleaned 0 idx);
                account = trim (sliceFrom cleaned (idx + 1))
            in \<lparr> sl_label = (if account \<noteq> [] then account else cleaned),
                 sl_issuerFromLabel = (if issuer \<noteq> [] then Some issuer else None) \<rparr>)
         else \<lparr> sl_label = cleaned, sl_issuerFromLabel = None \<rparr>)"

definition alphabet :: string where
  "alphabet = ''ABCDEFGHIJKLMNOPQRSTUVWXYZ234567''"

text \<open>The \<^verbatim>\<open>Map\<close> filled by the first loop: each letter of the alphabet to its index.\<close>

definition lookup :: "char \<Rightarrow> int32 option" where
  "lookup = map_of (zip alphabet (map word_of_nat [0..<length alphabet]))"

text \<open>
  The decoding loop over \<open>cleaned\<close>, with the variables \<open>bits\<close>, \<open>value\<close> and \<open>out\<close>
  of the source. \<open>value\<close> is shifted as a 32-bit integer.
\<close>

fun base32_loop :: "string \<Rightarrow> nat \<Rightarrow> int32 \<Rightarrow> byte list \<Rightarrow> error + byte list" where
  "base32_loop [] bits val out = Inr out"
| "base32_loop (ch # rest) bits val out =
     (case lookup ch of
        None \<Rightarrow> Inl (InvalidBase32Character ch)
      | Some v \<Rightarrow>
          (let val1 = push_bit 5 val OR v;
               bits1 = bits + 5
           in if bits1 \<ge> 8 then
                (let bits2 = bits1 - 8;
                     byte = ucast (drop_bit bits2 val1 AND 0xff)
                 in base32_loop rest bits2 val1 (out @ [byte]))
              else base32_loop rest bits1 val1 out))"

text \<open>
  \<open>base32_clean\<close> is the first statement: all white space removed, then the run of
  \<open>=\<close> at the end, then \<^verbatim>\<open>toUpperCase\<close>.
\<close>

definition base32_clean :: "string \<Rightarrow> string" where
  "base32_clean input =
     toUpperCase (rev (dropWhile (\<lambda>c. c = CHR ''='') (rev (filter (\<lambda>c. \<not> isSpace c) input))))"

definition base32DecodeToBytes :: "string \<Rightarrow> error + byte list" where
  "base32DecodeToBytes input =
     (let cleaned = base32_clean input
      in if length cleaned = 0 then Inr [] else base32_loop cleaned 0 0 [])"

text \<open>
  The URL parser, \<^verbatim>\<open>decodeURIComponent\<close> and \<^verbatim>\<open>parseInt\<close> belong to the platform.
  They are the fields of \<open>host\<close>: \<open>h_URL\<close> returns the parsed URL or \<open>None\<close> where the
  constructor throws, \<open>h_decodeURIComponent\<close> returns \<open>None\<close> where a malformed escape
  makes it throw, \<open>h_parseInt\<close> is \<^verbatim>\<open>parseInt(s, 10)\<close>. The search parameters of a URL
  are its decoded name-value pairs in order; \<^verbatim>\<open>get\<close> returns the first value of a name.
\<close>

record URL =
  url_protocol :: string
  url_hostname :: string
  url_pathname :: string
  url_searchParams :: "(string \<times> string) list"

record host =
  h_URL :: "string \<Rightarrow> URL option"
  h_decodeURIComponent :: "string \<Rightarrow> string option"
  h_parseInt :: "string \<Rightarrow> jsnum"

definition params_get :: "(string \<times> string) list \<Rightarrow> string \<Rightarrow> string option" where
  "params_get params name = map_of params name"

text \<open>\<open>truthy\<close> is the test \<^verbatim>\<open>if (s)\<close> and \<^verbatim>\<open>s || undefined\<close> on an optional string.\<close>

definition truthy :: "string option \<Rightarrow> string option" where
  "truthy v = (case v of None \<Rightarrow> None | Some s \<Rightarrow> if s = [] then None else Some s)"

definition parseOtpauthUri :: "host \<Rightarrow> string \<Rightarrow> error + ParsedTOTPEntry" where
  "parseOtpauthUri h uri =
     (let raw = trim uri in
      case h_URL h raw of
        None \<Rightarrow> Inl MalformedUrl
      | Some url \<Rightarrow>
          if url_protocol url \<noteq> ''otpauth:'' then Inl ProtocolMustBeOtpauth
          else if toLowerCase (url_hostname url) \<noteq> ''totp'' then Inl OnlyTOTPSupported
          else
            (case h_decodeURIComponent h (dropWhile (\<lambda>c. c = CHR ''/'') (url_pathname url)) of
               None \<Rightarrow> Inl URIError
             | Some labelRaw \<Rightarrow>
                 (let sl = splitLabel labelRaw;
                      params = url_searchParams url
                  in case truthy (params_get params ''secret'') of
                       None \<Rightarrow> Inl MissingSecretParameter
                     | Some secretParam \<Rightarrow>
                         (let algorithmParam = truthy (params_get params ''algorithm'');
                              digitsParam = params_get params ''digits'';
                              periodParam = params_get params ''period'';
                              issuerParam = truthy (params_get params ''issuer'');
                              algorithm = normalizeAlg algorithmParam;
                              digits = normalizeDigits (map_option (h_parseInt h) (truthy digitsParam));
                              period = normalizePeriod (map_option (h_parseInt h) (truthy periodParam))
                          in case base32DecodeToBytes secretParam of
                               Inl e \<Rightarrow> Inl e
                             | Inr secretBytes \<Rightarrow>
                                 Inr \<lparr> p_label = sl_label sl,
                                       p_issuer = (case issuerParam of
                                                     Some i \<Rightarrow> Some i
                                                   | None \<Rightarrow> truthy (sl_issuerFromLabel sl)),
                                       p_secretBytes = secretBytes,
                                       p_algorithm = algorithm,
                                       p_digits = digits,
                                       p_period = period \<rparr>))))"

section \<open>crypto.ts: the authenticated cipher\<close>

text \<open>
  A \<^verbatim>\<open>CryptoKey\<close> wraps its raw bytes. The cipher itself is the platform's
  (\<^verbatim>\<open>crypto.subtle.decrypt\<close> with AES-GCM); it is the parameter \<open>subtle_decrypt\<close>,
  which returns \<open>None\<close> where the platform rejects the promise because the
  ciphertext, the nonce and the key do not verify.
\<close>

datatype CryptoKey = AesGcmKey "byte list"



section \<open>db.ts: the record store\<close>

record DBSecretRecord =
  r_id :: string
  r_label :: string
  r_issuer :: "string option"
  r_alg :: TOTPHashAlg
  r_digits :: nat
  r_period :: int
  r_encSecret :: "byte list"
  r_iv :: "byte list"
  r_createdAt :: int
  r_updatedAt :: int
  r_order :: int

text \<open>
  The object store \<^verbatim>\<open>secrets\<close> has the key path \<^verbatim>\<open>id\<close>. It is the list of its
  records in ascending order of their keys, which is the order in which
  \<^verbatim>\<open>getAll\<close> returns them; keys are compared as strings, code unit by code unit.
  \<^verbatim>\<open>add\<close> fails on a key that exists, \<^verbatim>\<open>put\<close> replaces. Failures of the storage
  engine itself (quota, corruption) are not modelled.
\<close>

type_synonym store = "DBSecretRecord list"

definition store_get :: "store \<Rightarrow> string \<Rightarrow> DBSecretRecord option" where
  "store_get s k = find (\<lambda>r. r_id r = k) s"

definition store_getAll :: "store \<Rightarrow> DBSecretRecord list" where
  "store_getAll s = s"

definition store_add :: "DBSecretRecord \<Rightarrow> store \<Rightarrow> error + store" where
  "store_add r s =
     (case store_get s (r_id r) of
        Some _ \<Rightarrow> Inl ConstraintError
      | None \<Rightarrow> Inr (insort_key r_id r s))"

definition store_put :: "DBSecretRecord \<Rightarrow> store \<Rightarrow> store" where
  "store_put r s = insort_key r_id r (filter (\<lambda>x. r_id x \<noteq> r_id r) s)"

text \<open>
  \<^verbatim>\<open>arr.slice().sort((a, b) => a.order - b.order)\<close>: the sort of the language is
  stable, as \<open>sort_key\<close> is.
\<close>

definition listSecrets :: "store \<Rightarrow> DBSecretRecord list" where
  "listSecrets s = sort_key r_order (store_getAll s)"

definition getSecret :: "store \<Rightarrow> string \<Rightarrow> DBSecretRecord option" where
  "getSecret s k = store_get s k"

record NewSecretInput =
  n_label :: string
  n_issuer :: "string option"
  n_alg :: TOTPHashAlg
  n_digits :: nat
  n_period :: int
  n_encSecret :: "byte list"
  n_iv :: "byte list"

text \<open>
  \<open>now\<close> is the reading of the clock and \<open>newId\<close> the identifier that
  \<^verbatim>\<open>generateId\<close> draws from the random source. \<^verbatim>\<open>Math.max\<close> over the orders is the
  fold of \<open>max\<close>; the source calls it on a non-empty list only.
\<close>

definition addSecret ::
  "int \<Rightarrow> string \<Rightarrow> NewSecretInput \<Rightarrow> store \<Rightarrow> error + (DBSecretRecord \<times> store)" where
  "addSecret now newId input s =
     (let current = listSecrets s;
          nextOrder = (case map r_order current of
                         [] \<Rightarrow> 1
                       | x # xs \<Rightarrow> fold max xs x + 1);
          record = \<lparr> r_id = newId,
                     r_label = trim (n_label input),
                     r_issuer = truthy (map_option trim (n_issuer input)),
                     r_alg = n_alg input,
                     r_digits = n_digits input,
                     r_period = n_period input,
                     r_encSecret = n_encSecret input,
                     r_iv = n_iv input,
                     r_createdAt = now,
                     r_updatedAt = now,
                     r_order = nextOrder \<rparr>
      in case store_add record s of
           Inl e \<Rightarrow> Inl e
         | Inr s' \<Rightarrow> Inr (record, s'))"

definition deleteSecret :: "string \<Rightarrow> store \<Rightarrow> store" where
  "deleteSecret k s = filter (\<lambda>x. r_id x \<noteq> k) s"

text \<open>
  \<^verbatim>\<open>reorderSecrets\<close> runs inside one transaction. For each pair it reads the record
  and, when there is one, writes it back with the new order; a pair whose record
  is missing changes nothing. The requests all read before the first one writes,
  which gives the same store as this fold, since a write changes only the two
  fields that a later write of the same record sets again. Each write reads the
  clock for itself; \<open>now\<close> stands for all of these readings.
\<close>

definition reorder_one :: "int \<Rightarrow> string \<times> int \<Rightarrow> store \<Rightarrow> store" where
  "reorder_one now p s =
     (case store_get s (fst p) of
        Some rec \<Rightarrow> store_put (rec\<lparr> r_order := snd p, r_updatedAt := now \<rparr>) s
      | None \<Rightarrow> s)"

definition reorderSecrets :: "int \<Rightarrow> (string \<times> int) list \<Rightarrow> store \<Rightarrow> store" where
  "reorderSecrets now newOrder s =
     (if length newOrder = 0 then s else fold (reorder_one now) newOrder s)"

section \<open>main.ts: the session\<close>

record DecryptedEntry =
  e_id :: string
  e_label :: string
  e_issuer :: "string option"
  e_alg :: TOTPHashAlg
  e_digits :: nat
  e_period :: int
  e_secretBytes :: "byte list"

text \<open>
  The module-level variables \<^verbatim>\<open>sessionKey\<close>, \<^verbatim>\<open>decryptedCache\<close> and \<^verbatim>\<open>tickTimer\<close>,
  and the two object stores of the database. The meta store is modelled for the
  byte arrays it holds (\<^verbatim>\<open>appKey\<close>).
\<close>

record app =
  sessionKey :: "CryptoKey option"
  decryptedCache :: "string \<rightharpoonup> DecryptedEntry"
  ticking :: bool
  db_secrets :: store
  db_meta :: "string \<rightharpoonup> byte list"

text \<open>
  \<^verbatim>\<open>crypto.subtle.importKey('raw', bytes, AES-GCM)\<close> accepts 128, 192 and 256 bits.
\<close>

definition importKey :: "byte list \<Rightarrow> error + CryptoKey" where
  "importKey keyBytes =
     (if length keyBytes \<in> {16, 24, 32} then Inr (AesGcmKey keyBytes) else Inl DataError)"

text \<open>\<open>rnd\<close> is what \<^verbatim>\<open>crypto.getRandomValues\<close> writes into the 32 fresh bytes.\<close>

definition ensureSessionKey :: "byte list \<Rightarrow> app \<Rightarrow> (error + unit) \<times> app" where
  "ensureSessionKey rnd st =
     (case sessionKey st of
        Some _ \<Rightarrow> (Inr (), st)
      | None \<Rightarrow>
          (let existing = db_meta st ''appKey'';
               keyBytes = (case existing of Some b \<Rightarrow> b | None \<Rightarrow> take 32 (rnd @ replicate 32 0));
               st1 = (case existing of
                        Some _ \<Rightarrow> st
                      | None \<Rightarrow> st\<lparr> db_meta := (db_meta st)(''appKey'' \<mapsto> keyBytes) \<rparr>)
           in case importKey keyBytes of
                Inl e \<Rightarrow> (Inl e, st1)
              | Inr k \<Rightarrow> (Inr (), st1\<lparr> sessionKey := Some k \<rparr>)))"




section \<open>The specification's reference definitions\<close>

text \<open>
  These definitions follow the words of the specification, not the code; the
  theorems below compare the code with them.
\<close>

text \<open>
  The 8-byte big-endian encoding of a counter: byte \<open>i\<close> is the counter divided by
  \<open>256 ^ (7 - i)\<close>, modulo 256.
\<close>

definition be64 :: "int \<Rightarrow> byte list" where
  "be64 c = map (\<lambda>i. word_of_int (c div 256 ^ (7 - i))) [0..<8]"

text \<open>The value of a byte sequence read as a big-endian number.\<close>

definition be_value :: "byte list \<Rightarrow> nat" where
  "be_value bs = foldl (\<lambda>acc b. 256 * acc + unat b) 0 bs"

text \<open>
  RFC 4226, section 5.3: the low-order 4 bits of the final byte are the offset; the
  4 bytes there are a big-endian 32-bit value, whose top bit is masked off.
\<close>

definition rfc4226_truncate :: "byte list \<Rightarrow> nat" where
  "rfc4226_truncate mac =
     (let offset = unat (last mac) mod 16;
          p = take 4 (drop offset mac)
      in be_value p mod 2 ^ 31)"

definition left_zero_pad :: "nat \<Rightarrow> string \<Rightarrow> string" where
  "left_zero_pad n s = replicate (n - length s) (CHR ''0'') @ s"

definition rfc4226_codeForStep ::
  "hmac_fn \<Rightarrow> byte list \<Rightarrow> int \<Rightarrow> nat \<Rightarrow> TOTPHashAlg \<Rightarrow> string" where
  "rfc4226_codeForStep hmac secret step digits alg =
     (let mac = hmac secret (be64 step) alg;
          code = rfc4226_truncate mac mod 10 ^ digits
      in left_zero_pad digits (decimal code))"

definition is_digit :: "char \<Rightarrow> bool" where
  "is_digit c = (CHR ''0'' \<le> c \<and> c \<le> CHR ''9'')"

text \<open>The two values of the type \<^verbatim>\<open>TOTPHashAlg\<close> as the strings they are in the source.\<close>

definition alg_name :: "TOTPHashAlg \<Rightarrow> string" where
  "alg_name a = (case a of SHA1 \<Rightarrow> ''SHA-1'' | SHA256 \<Rightarrow> ''SHA-256'')"

text \<open>
  The HMAC-SHA-1 value of RFC 4226, Appendix D, for the secret
  \<open>12345678901234567890\<close> and the counter 0; the examples below use it as the
  output of the keyed hash.
\<close>

definition rfc4226_secret :: "byte list" where
  "rfc4226_secret =
     [0x31, 0x32, 0x33, 0x34, 0x35, 0x36, 0x37, 0x38, 0x39, 0x30,
      0x31, 0x32, 0x33, 0x34, 0x35, 0x36, 0x37, 0x38, 0x39, 0x30]"

definition rfc4226_mac0 :: "byte list" where
  "rfc4226_mac0 =
     [0xcc, 0x93, 0xcf, 0x18, 0x50, 0x8d, 0x94, 0x93, 0x4c, 0x64,
      0xb6, 0x5d, 0x8b, 0xa7, 0x66, 0x7f, 0xb7, 0xcd, 0xe4, 0xb0]"

section \<open>Notions used to state the properties\<close>

text \<open>The two halves of \<open>trim\<close>.\<close>

definition ltrim :: "string \<Rightarrow> string" where
  "ltrim s = dropWhile isSpace s"

definition rtrim :: "string \<Rightarrow> string" where
  "rtrim s = rev (dropWhile isSpace (rev s))"

text \<open>
  The input of the Base32 decoder after white space and the padding at its end
  are removed, before any change of case; membership in the alphabet of RFC 4648
  without regard to case; and the characters of ASCII.
\<close>

definition base32_stripped :: "string \<Rightarrow> string" where
  "base32_stripped input =
     rev (dropWhile (\<lambda>c. c = CHR ''='') (rev (filter (\<lambda>c. \<not> isSpace c) input)))"

definition in_alphabet_ci :: "char \<Rightarrow> bool" where
  "in_alphabet_ci c = (c \<in> set alphabet \<or> c \<in> set ''abcdefghijklmnopqrstuvwxyz'')"

definition isASCII :: "char \<Rightarrow> bool" where
  "isASCII c = ((of_char c :: nat) < 128)"

text \<open>
  A host whose URL parser answers as \<open>h\<close> does, except that the parameter
  \<open>secret\<close> is absent from every URL it returns.
\<close>

definition without_secret :: "host \<Rightarrow> host" where
  "without_secret h =
     h\<lparr> h_URL := (\<lambda>s. map_option
            (\<lambda>u. u\<lparr> url_searchParams :=
                       filter (\<lambda>p. fst p \<noteq> ''secret'') (url_searchParams u) \<rparr>)
            (h_URL h s)) \<rparr>"

text \<open>The record that \<open>addSecret\<close> builds, as a function of the order it assigns.\<close>

definition mkRecord :: "int \<Rightarrow> string \<Rightarrow> NewSecretInput \<Rightarrow> int \<Rightarrow> DBSecretRecord" where
  "mkRecord now newId input ord =
     \<lparr> r_id = newId, r_label = trim (n_label input),
       r_issuer = truthy (map_option trim (n_issuer input)),
       r_alg = n_alg input, r_digits = n_digits input, r_period = n_period input,
       r_encSecret = n_encSecret input, r_iv = n_iv input,
       r_createdAt = now, r_updatedAt = now, r_order = ord \<rparr>"




section \<open>Concrete inputs for the examples\<close>

text \<open>
  What the URL parser of the platform answers on the four URIs of the examples,
  and a host made of it. None of the four has an escape in its path or a numeric
  parameter, so the other two functions of this host are only ever asked about
  escape-free strings, which decode to themselves.
\<close>

definition demo_URL :: "string \<Rightarrow> URL option" where
  "demo_URL s =
     (if s = ''otpauth://totp/Issuer:?secret=JBSWY3DP'' then
        Some \<lparr> url_protocol = ''otpauth:'', url_hostname = ''totp'',
               url_pathname = ''/Issuer:'',
               url_searchParams = [(''secret'', ''JBSWY3DP'')] \<rparr>
      else if s = ''otpauth://totp/Issuer:alice?secret=JBSWY3DP'' then
        Some \<lparr> url_protocol = ''otpauth:'', url_hostname = ''totp'',
               url_pathname = ''/Issuer:alice'',
               url_searchParams = [(''secret'', ''JBSWY3DP'')] \<rparr>
      else if s = ''otpauth://totp/alice?secret='' then
        Some \<lparr> url_protocol = ''otpauth:'', url_hostname = ''totp'',
               url_pathname = ''/alice'',
               url_searchParams = [(''secret'', [])] \<rparr>
      else if s = ''otpauth://hotp/alice?secret='' then
        Some \<lparr> url_protocol = ''otpauth:'', url_hostname = ''hotp'',
               url_pathname = ''/alice'',
               url_searchParams = [(''secret'', [])] \<rparr>
      else None)"

definition demo_host :: host where
  "demo_host = \<lparr> h_URL = demo_URL,
                   h_decodeURIComponent = (\<lambda>s. if CHR ''%'' \<in> set s then None else Some s),
                   h_parseInt = (\<lambda>s. NaN) \<rparr>"

definition demo_entry :: "string \<Rightarrow> ParsedTOTPEntry" where
  "demo_entry l =
     \<lparr> p_label = l, p_issuer = Some ''Issuer'', p_secretBytes = [72, 101, 108, 108, 111],
       p_algorithm = SHA1, p_digits = 6, p_period = 30 \<rparr>"

definition demo_input :: "string \<Rightarrow> NewSecretInput" where
  "demo_input l =
     \<lparr> n_label = l, n_issuer = None, n_alg = SHA1, n_digits = 6, n_period = 30,
       n_encSecret = [1], n_iv = [2] \<rparr>"








section \<open>Properties of the code engine\<close>

subsection \<open>Packing four bytes into a 31-bit value\<close>

lemma pack_or:
  fixes A B C D :: int32
  shows "((push_bit 24 (take_bit 7 A) OR push_bit 16 (take_bit 8 B))
            OR push_bit 8 (take_bit 8 C)) OR take_bit 8 D
       = push_bit 24 (take_bit 7 A) + push_bit 16 (take_bit 8 B)
           + push_bit 8 (take_bit 8 C) + take_bit 8 D"
proof -
  have h1: "push_bit 24 (take_bit 7 A) OR push_bit 16 (take_bit 8 B)
      = push_bit 24 (take_bit 7 A) + push_bit 16 (take_bit 8 B)"
    by (rule disjunctive_add [symmetric]) (auto simp: bit_simps)
  have h2: "(push_bit 24 (take_bit 7 A) OR push_bit 16 (take_bit 8 B)) OR push_bit 8 (take_bit 8 C)
      = (push_bit 24 (take_bit 7 A) OR push_bit 16 (take_bit 8 B)) + push_bit 8 (take_bit 8 C)"
    by (rule disjunctive_add [symmetric]) (auto simp: bit_simps)
  have h3: "((push_bit 24 (take_bit 7 A) OR push_bit 16 (take_bit 8 B))
               OR push_bit 8 (take_bit 8 C)) OR take_bit 8 D
      = ((push_bit 24 (take_bit 7 A) OR push_bit 16 (take_bit 8 B))
               OR push_bit 8 (take_bit 8 C)) + take_bit 8 D"
    by (rule disjunctive_add [symmetric]) (auto simp: bit_simps)
  show ?thesis by (subst h3, subst h2, subst h1, rule refl)
qed

lemma ucast_byte_take_bit: "(ucast (b::byte) :: int32) = take_bit 8 (ucast b)"
  by (rule bit_word_eqI) (auto simp: bit_simps dest: bit_imp_le_length)

lemma take_bit7_ucast: "take_bit 7 (ucast (a::byte) :: int32) = word_of_nat (unat a mod 128)"
proof -
  have "take_bit 7 (word_of_nat (unat a) :: int32) = word_of_nat (take_bit 7 (unat a))"
    by (rule take_bit_of_nat)
  then show ?thesis by (simp add: take_bit_eq_mod)
qed

lemma sint_small: "n < 2 ^ 31 \<Longrightarrow> sint (word_of_nat n :: int32) = int n"
  by (simp add: signed_of_nat signed_take_bit_int_eq_self)

lemma unat_byte: "unat (b::byte) < 256"
  using unsigned_less [of b, where ?'a = nat] by simp

lemma pack_value:
  fixes a b c d :: byte
  shows "sint (((push_bit 24 ((ucast a :: int32) AND 0x7f) OR push_bit 16 (ucast b))
                  OR push_bit 8 (ucast c)) OR ucast d)
       = int ((unat a mod 128) * 2 ^ 24 + unat b * 2 ^ 16 + unat c * 2 ^ 8 + unat d)"
proof -
  have m7: "(ucast a :: int32) AND 0x7f = take_bit 7 (ucast a)"
    by (simp add: take_bit_eq_mask mask_numeral)
  have "((push_bit 24 ((ucast a :: int32) AND 0x7f) OR push_bit 16 (ucast b))
            OR push_bit 8 (ucast c)) OR ucast d
      = ((push_bit 24 (take_bit 7 (ucast a :: int32)) OR push_bit 16 (take_bit 8 (ucast b)))
            OR push_bit 8 (take_bit 8 (ucast c))) OR take_bit 8 (ucast d)"
    by (simp only: m7 ucast_byte_take_bit [symmetric])
  also have "\<dots> = push_bit 24 (take_bit 7 (ucast a)) + push_bit 16 (take_bit 8 (ucast b))
                    + push_bit 8 (take_bit 8 (ucast c)) + take_bit 8 (ucast d)"
    by (rule pack_or)
  also have "\<dots> = push_bit 24 (take_bit 7 (ucast a)) + push_bit 16 (ucast b)
                    + push_bit 8 (ucast c) + ucast d"
    by (simp only: ucast_byte_take_bit [symmetric])
  also have "\<dots> = word_of_nat ((unat a mod 128) * 2 ^ 24 + unat b * 2 ^ 16 + unat c * 2 ^ 8 + unat d)"
    by (simp add: push_bit_eq_mult take_bit7_ucast)
  finally have eq:
    "((push_bit 24 ((ucast a :: int32) AND 0x7f) OR push_bit 16 (ucast b))
         OR push_bit 8 (ucast c)) OR ucast d
      = word_of_nat ((unat a mod 128) * 2 ^ 24 + unat b * 2 ^ 16 + unat c * 2 ^ 8 + unat d)" .
  have "(unat a mod 128) * 2 ^ 24 + unat b * 2 ^ 16 + unat c * 2 ^ 8 + unat d < 2 ^ 31"
    using unat_byte [of b] unat_byte [of c] unat_byte [of d] by simp
  then show ?thesis unfolding eq by (rule sint_small)
qed

lemma be_value4:
  "be_value [a, b, c, d] mod 2 ^ 31
     = (unat a mod 128) * 2 ^ 24 + unat b * 2 ^ 16 + unat c * 2 ^ 8 + unat d"
proof -
  define r where "r = unat b * 2 ^ 16 + unat c * 2 ^ 8 + unat d"
  have r: "r < 2 ^ 24"
    using unat_byte [of b] unat_byte [of c] unat_byte [of d] by (simp add: r_def)
  have "be_value [a, b, c, d] = unat a * 2 ^ 24 + r"
    by (simp add: be_value_def r_def)
  moreover have "(unat a * 2 ^ 24 + r) mod (2 ^ 24 * 128)
      = 2 ^ 24 * ((unat a * 2 ^ 24 + r) div 2 ^ 24 mod 128) + (unat a * 2 ^ 24 + r) mod 2 ^ 24"
    by (rule mod_mult2_eq)
  moreover have "(unat a * 2 ^ 24 + r) div 2 ^ 24 = unat a" using r by simp
  moreover have "(unat a * 2 ^ 24 + r) mod 2 ^ 24 = r" using r by simp
  ultimately show ?thesis by (simp add: r_def)
qed

subsection \<open>The moving factor\<close>

lemma byte_of_and: "(word_of_int (v AND 0xff) :: byte) = word_of_int v"
proof -
  have "v AND 0xff = take_bit 8 v"
    by (simp add: take_bit_eq_mask mask_numeral)
  moreover have "(word_of_int (take_bit 8 v) :: byte) = word_of_int v"
    by (rule bit_word_eqI) (auto simp: bit_simps)
  ultimately show ?thesis by simp
qed

lemma numberTo8ByteBE_be64: "numberTo8ByteBE n = be64 n"
  by (simp add: numberTo8ByteBE_def be64_def eval_nat_numeral upt_rec byte_of_and drop_bit_eq_div
        zdiv_zmult2_eq [symmetric])

subsection \<open>Dynamic truncation\<close>

lemma toInt32_ucast: "toInt32 v = ucast (byte_or0 v)"
  by (simp add: toInt32_def byte_or0_def split: option.splits)

lemma dynamicTruncate_nonneg: "0 \<le> dynamicTruncate mac"
  unfolding dynamicTruncate_def Let_def toInt32_ucast pack_value by simp

lemma offset_low4: "unat ((ucast (b::byte) :: int32) AND 0x0f) = unat b mod 16"
proof -
  have "(ucast b :: int32) AND 0x0f = take_bit 4 (ucast b)"
    by (simp add: take_bit_eq_mask mask_numeral)
  also have "\<dots> = take_bit 4 (word_of_nat (unat b))" by simp
  also have "\<dots> = word_of_nat (take_bit 4 (unat b))" by (rule take_bit_of_nat)
  finally have "(ucast b :: int32) AND 0x0f = word_of_nat (unat b mod 16)"
    by (simp add: take_bit_eq_mod)
  moreover have "unat (word_of_nat (unat b mod 16) :: int32) = unat b mod 16"
    by (simp add: unat_of_nat take_bit_eq_mod)
  ultimately show ?thesis by simp
qed

lemma take4: "4 \<le> length xs \<Longrightarrow> take 4 xs = [xs ! 0, xs ! 1, xs ! 2, xs ! 3]"
  by (cases xs; cases "tl xs"; cases "tl (tl xs)"; cases "tl (tl (tl xs))") auto

lemma dynamicTruncate_rfc4226:
  assumes len: "20 \<le> length mac"
  shows "dynamicTruncate mac = int (rfc4226_truncate mac)"
proof -
  define off where "off = unat (last mac) mod 16"
  have ne: "mac \<noteq> []" using len by auto
  have lastb: "u8_at mac (int (length mac) - 1) = Some (last mac)"
    using ne by (simp add: u8_at_def last_conv_nth nat_diff_distrib')
  have off: "unat (toInt32 (u8_at mac (int (length mac) - 1)) AND 0x0f) = off"
    unfolding lastb off_def by (simp only: toInt32_def option.case offset_low4)
  have offb: "off < 16" by (simp add: off_def)
  have sub: "subarray mac off (off + 4) = take 4 (drop off mac)"
    by (simp add: subarray_def drop_take)
  have l4: "4 \<le> length (drop off mac)" using len offb by simp
  obtain a b c d where p: "take 4 (drop off mac) = [a, b, c, d]"
    using take4 [OF l4] by blast
  have "dynamicTruncate mac
      = int ((unat a mod 128) * 2 ^ 24 + unat b * 2 ^ 16 + unat c * 2 ^ 8 + unat d)"
  proof -
    have g: "toInt32 (u8_at [a, b, c, d] 0) = ucast a" "toInt32 (u8_at [a, b, c, d] 1) = ucast b"
      "toInt32 (u8_at [a, b, c, d] 2) = ucast c" "toInt32 (u8_at [a, b, c, d] 3) = ucast d"
      by (simp_all add: u8_at_def toInt32_def)
    show ?thesis
      unfolding dynamicTruncate_def Let_def off sub p g pack_value ..
  qed
  moreover have "rfc4226_truncate mac
      = (unat a mod 128) * 2 ^ 24 + unat b * 2 ^ 16 + unat c * 2 ^ 8 + unat d"
    unfolding rfc4226_truncate_def Let_def off_def [symmetric] p by (rule be_value4)
  ultimately show ?thesis by simp
qed

subsection \<open>Decimal rendering and padding\<close>

lemma decimal_digits_set: "c \<in> set (decimal n) \<Longrightarrow> is_digit c"
proof (induction n rule: decimal.induct)
  case (1 n)
  from 1(2) show ?case
    by (subst (asm) decimal.simps) (use 1(1) in \<open>auto simp: is_digit_def less_eq_char_def split: if_splits\<close>)
qed

lemma decimal_digits: "list_all is_digit (decimal n)"
  by (simp add: list_all_iff decimal_digits_set)

lemma decimal_length: "0 < k \<Longrightarrow> n < 10 ^ k \<Longrightarrow> length (decimal n) \<le> k"
proof (induction n arbitrary: k rule: decimal.induct)
  case (1 n)
  show ?case
  proof (cases "n < 10")
    case True
    then show ?thesis using 1(2) by (subst decimal.simps) simp
  next
    case False
    then obtain j where k: "k = Suc j" and j: "0 < j"
      using 1(2,3) by (cases k; cases "k - 1") auto
    have "n div 10 < 10 ^ j"
      using 1(3) k by (simp add: less_mult_imp_div_less mult.commute)
    then have "length (decimal (n div 10)) \<le> j"
      using 1(1) [OF False j] by simp
    then show ?thesis using False k by (subst decimal.simps) simp
  qed
qed

lemma padDigits_nonneg:
  assumes "0 \<le> n" "digits = 6 \<or> digits = 8"
  shows "padDigits n digits = left_zero_pad digits (decimal (nat n mod 10 ^ digits))"
proof -
  have "n smod 1000000 = n mod 1000000" "n smod 100000000 = n mod 100000000"
    using assms(1) by (simp_all add: signed_modulo_int_def sgn_if)
  moreover have "nat (n mod 1000000) = nat n mod 10 ^ 6"
    "nat (n mod 100000000) = nat n mod 10 ^ 8"
    using assms(1) by (simp_all add: nat_mod_distrib)
  ultimately show ?thesis
    using assms(2)
    by (auto simp: padDigits_def Let_def toString_def padStart_def left_zero_pad_def)
qed

lemma code_shape:
  assumes "0 < digits"
  shows "length (left_zero_pad digits (decimal (n mod 10 ^ digits))) = digits
       \<and> list_all is_digit (left_zero_pad digits (decimal (n mod 10 ^ digits)))"
proof -
  have "length (decimal (n mod 10 ^ digits)) \<le> digits"
    by (rule decimal_length [OF assms]) simp
  then show ?thesis
    using decimal_digits [of "n mod 10 ^ digits"]
    by (auto simp: left_zero_pad_def is_digit_def list_all_iff)
qed

subsection \<open>The code for one step\<close>

lemma rfc4226_mac0_length: "length rfc4226_mac0 = 20"
  by (simp add: rfc4226_mac0_def)

text \<open>
  The first test vector of RFC 4226, Appendix D: from the HMAC-SHA-1 value for the
  counter 0 the code produces the truncated value 1284755224 and the code 755224.
\<close>

lemma rfc4226_mac0_truncate: "rfc4226_truncate rfc4226_mac0 = 1284755224"
  by (simp add: rfc4226_truncate_def rfc4226_mac0_def be_value_def Let_def)

lemma decimal_755224: "decimal 755224 = ''755224''"
  by (simp add: decimal.simps char_of_eq_iff)

lemma padDigits_1284755224: "padDigits 1284755224 6 = ''755224''"
  by (simp add: padDigits_def signed_modulo_int_def toString_def padStart_def decimal_755224)

lemma rfc4226_appendix_D_counter_0:
  "dynamicTruncate rfc4226_mac0 = 1284755224"
  "generateTOTPForStep (\<lambda>k d a. rfc4226_mac0) rfc4226_secret 0 6 SHA1 = ''755224''"
proof -
  show t: "dynamicTruncate rfc4226_mac0 = 1284755224"
    using dynamicTruncate_rfc4226 [of rfc4226_mac0]
    by (simp add: rfc4226_mac0_length rfc4226_mac0_truncate)
  show "generateTOTPForStep (\<lambda>k d a. rfc4226_mac0) rfc4226_secret 0 6 SHA1 = ''755224''"
    using t by (simp add: generateTOTPForStep_def padDigits_1284755224)
qed

text \<open>
  Claim C9. For every secret, every step and every number of digits in \<open>{6, 8}\<close>, the
  string that \<open>generateTOTPForStep\<close> returns has exactly that many characters, and
  each of them is a decimal digit. This holds for every keyed hash, whatever the
  length of its output.
\<close>

theorem generateTOTPForStep_length_digits:
  "digits = 6 \<or> digits = 8 \<Longrightarrow>
     length (generateTOTPForStep hmac secret step digits alg) = digits \<and>
     list_all is_digit (generateTOTPForStep hmac secret step digits alg)"
  unfolding generateTOTPForStep_def Let_def
  by (subst (1 2) padDigits_nonneg [OF dynamicTruncate_nonneg];
      use code_shape [of digits] in auto)

theorem generateTOTPForStep_length_digits_witness:
  "((6::nat) = 6 \<or> (6::nat) = 8) \<and>
   length (generateTOTPForStep (\<lambda>k d a. rfc4226_mac0) rfc4226_secret 0 6 SHA1) = 6 \<and>
   list_all is_digit (generateTOTPForStep (\<lambda>k d a. rfc4226_mac0) rfc4226_secret 0 6 SHA1)"
  using generateTOTPForStep_length_digits [of 6 "\<lambda>k d a. rfc4226_mac0" rfc4226_secret 0 SHA1]
  by simp

text \<open>
  Claim C2. For every secret, every step, every number of digits in \<open>{6, 8}\<close> and
  both algorithms, \<open>generateTOTPForStep\<close> returns the code of the reference
  \<open>rfc4226_codeForStep\<close>: the keyed hash of the 8-byte big-endian step, truncated
  dynamically as RFC 4226 section 5.3 says, reduced modulo \<open>10 ^ digits\<close> and padded
  with zeros on the left. The keyed hash is any function whose output here has at
  least the 20 bytes of a SHA-1 value. A step outside of \<open>0 .. 2^64 - 1\<close> is encoded
  modulo \<open>2^64\<close> by both sides.
\<close>

theorem generateTOTPForStep_rfc4226:
  assumes "digits = 6 \<or> digits = 8"
    and "20 \<le> length (hmac secret (numberTo8ByteBE step) alg)"
  shows "generateTOTPForStep hmac secret step digits alg
       = rfc4226_codeForStep hmac secret step digits alg"
  using assms
  by (simp add: generateTOTPForStep_def rfc4226_codeForStep_def Let_def
        padDigits_nonneg [OF dynamicTruncate_nonneg] numberTo8ByteBE_be64
        dynamicTruncate_rfc4226)

theorem generateTOTPForStep_rfc4226_witness:
  "((6::nat) = 6 \<or> (6::nat) = 8) \<and>
   20 \<le> length ((\<lambda>k d a. rfc4226_mac0) rfc4226_secret (numberTo8ByteBE 0) SHA1) \<and>
   generateTOTPForStep (\<lambda>k d a. rfc4226_mac0) rfc4226_secret 0 6 SHA1
     = rfc4226_codeForStep (\<lambda>k d a. rfc4226_mac0) rfc4226_secret 0 6 SHA1"
  using generateTOTPForStep_rfc4226 [of 6 "\<lambda>k d a. rfc4226_mac0" rfc4226_secret 0 SHA1]
  by (simp add: rfc4226_mac0_length)

subsection \<open>The window\<close>

lemma window_codes:
  "generateTOTPWindow hmac now opts = w \<Longrightarrow>
   period = normalizePeriod (o_period opts) \<Longrightarrow>
   digits = normalizeDigits (o_digits opts) \<Longrightarrow>
   alg = normalizeAlg (o_algorithm opts) \<Longrightarrow>
   ts = (case o_timestamp opts of Some t \<Rightarrow> t | None \<Rightarrow> now) \<Longrightarrow>
   w_step w = stepAt ts period \<and>
   w_prev w = generateTOTPForStep hmac (o_secret opts) (stepAt ts period - 1) digits alg \<and>
   w_current w = generateTOTPForStep hmac (o_secret opts) (stepAt ts period) digits alg \<and>
   w_next w = generateTOTPForStep hmac (o_secret opts) (stepAt ts period + 1) digits alg"
  by (auto simp: generateTOTPWindow_def Let_def)

lemma normalizeAlg_name: "normalizeAlg (Some (alg_name a)) = a"
  by (cases a)
    (simp_all add: normalizeAlg_def alg_name_def toUpperCase_def upperChar_def Let_def)

lemma normalizePeriod_id:
  "5 \<le> p \<Longrightarrow> p \<le> 300 \<Longrightarrow> normalizePeriod (Some (Finite (of_int p))) = p"
  by (simp add: normalizePeriod_def)

lemma normalizeDigits_id:
  "d = 6 \<or> d = 8 \<Longrightarrow> normalizeDigits (Some (Finite (of_nat d))) = d"
  by (auto simp: normalizeDigits_def)

text \<open>
  Claim C3. For every secret, every period \<open>p\<close> that normalisation leaves as it is
  (\<open>5 \<le> p \<le> 300\<close>), every number of digits in \<open>{6, 8}\<close>, both algorithms and every
  timestamp \<open>t\<close>, the window has \<open>current\<close> equal to the code of the step
  \<open>stepAt t p\<close>, \<open>prev\<close> equal to the code of the step before it and \<open>next\<close> equal to
  the code of the step after it; \<open>step\<close> is that same step.
\<close>

theorem generateTOTPWindow_codes:
  assumes "5 \<le> p" "p \<le> 300" "d = 6 \<or> d = 8"
  shows "w_current (generateTOTPWindow hmac now
            \<lparr> o_secret = secret, o_period = Some (Finite (of_int p)),
              o_digits = Some (Finite (of_nat d)),
              o_algorithm = Some (alg_name a), o_timestamp = Some t \<rparr>)
           = generateTOTPForStep hmac secret (stepAt t p) d a
       \<and> w_prev (generateTOTPWindow hmac now
            \<lparr> o_secret = secret, o_period = Some (Finite (of_int p)),
              o_digits = Some (Finite (of_nat d)),
              o_algorithm = Some (alg_name a), o_timestamp = Some t \<rparr>)
           = generateTOTPForStep hmac secret (stepAt t p - 1) d a
       \<and> w_next (generateTOTPWindow hmac now
            \<lparr> o_secret = secret, o_period = Some (Finite (of_int p)),
              o_digits = Some (Finite (of_nat d)),
              o_algorithm = Some (alg_name a), o_timestamp = Some t \<rparr>)
           = generateTOTPForStep hmac secret (stepAt t p + 1) d a
       \<and> w_step (generateTOTPWindow hmac now
            \<lparr> o_secret = secret, o_period = Some (Finite (of_int p)),
              o_digits = Some (Finite (of_nat d)),
              o_algorithm = Some (alg_name a), o_timestamp = Some t \<rparr>)
           = stepAt t p"
  using window_codes [OF refl refl refl refl refl, of hmac now
            "\<lparr> o_secret = secret, o_period = Some (Finite (of_int p)),
               o_digits = Some (Finite (of_nat d)),
               o_algorithm = Some (alg_name a), o_timestamp = Some t \<rparr>"]
    normalizePeriod_id [OF assms(1,2)] normalizeDigits_id [OF assms(3)]
    normalizeAlg_name [of a]
  by simp

theorem generateTOTPWindow_codes_witness:
  "(5::int) \<le> 30 \<and> (30::int) \<le> 300 \<and> ((6::nat) = 6 \<or> (6::nat) = 8)
   \<and> w_current (generateTOTPWindow (\<lambda>k d a. rfc4226_mac0) 0
            \<lparr> o_secret = rfc4226_secret, o_period = Some (Finite (of_int 30)),
              o_digits = Some (Finite (of_nat 6)),
              o_algorithm = Some (alg_name SHA1), o_timestamp = Some 59000 \<rparr>)
           = generateTOTPForStep (\<lambda>k d a. rfc4226_mac0) rfc4226_secret (stepAt 59000 30) 6 SHA1
   \<and> w_prev (generateTOTPWindow (\<lambda>k d a. rfc4226_mac0) 0
            \<lparr> o_secret = rfc4226_secret, o_period = Some (Finite (of_int 30)),
              o_digits = Some (Finite (of_nat 6)),
              o_algorithm = Some (alg_name SHA1), o_timestamp = Some 59000 \<rparr>)
           = generateTOTPForStep (\<lambda>k d a. rfc4226_mac0) rfc4226_secret (stepAt 59000 30 - 1) 6 SHA1
   \<and> w_next (generateTOTPWindow (\<lambda>k d a. rfc4226_mac0) 0
            \<lparr> o_secret = rfc4226_secret, o_period = Some (Finite (of_int 30)),
              o_digits = Some (Finite (of_nat 6)),
              o_algorithm = Some (alg_name SHA1), o_timestamp = Some 59000 \<rparr>)
           = generateTOTPForStep (\<lambda>k d a. rfc4226_mac0) rfc4226_secret (stepAt 59000 30 + 1) 6 SHA1
   \<and> w_step (generateTOTPWindow (\<lambda>k d a. rfc4226_mac0) 0
            \<lparr> o_secret = rfc4226_secret, o_period = Some (Finite (of_int 30)),
              o_digits = Some (Finite (of_nat 6)),
              o_algorithm = Some (alg_name SHA1), o_timestamp = Some 59000 \<rparr>)
           = 1"
proof -
  have s: "stepAt 59000 30 = 1" by (simp add: stepAt_def)
  have h: "(5::int) \<le> 30" "(30::int) \<le> 300" "(6::nat) = 6 \<or> (6::nat) = 8" by simp_all
  show ?thesis
    using generateTOTPWindow_codes [OF h, of "\<lambda>k d a. rfc4226_mac0" 0 rfc4226_secret SHA1 59000]
    by (simp only: s h simp_thms)
qed

subsection \<open>Time steps and the period\<close>

lemma secondsRemaining_nonneg_timestamp:
  assumes "0 \<le> t" "0 < p"
  shows "secondsRemaining t p = p - ((t div 1000) mod p) - 1
       \<and> 0 \<le> secondsRemaining t p \<and> secondsRemaining t p \<le> p - 1"
proof -
  have s: "0 \<le> t div 1000"
    using assms(1) by (simp add: pos_imp_zdiv_nonneg_iff)
  have "(t div 1000) smod p = (t div 1000) mod p"
    using s assms(2) by (simp add: signed_modulo_int_def sgn_if)
  moreover have "0 \<le> (t div 1000) mod p" "(t div 1000) mod p < p"
    using assms(2) by simp_all
  ultimately show ?thesis by (simp add: secondsRemaining_def Let_def)
qed

text \<open>
  Claim C5. The claim asks of every integer timestamp, the negative ones too, that
  \<open>secondsRemaining\<close> is \<open>period - (floor(timestamp/1000) mod period) - 1\<close> and lies
  in \<open>[0, period - 1]\<close>. One second before the epoch, with the period 30, the
  formula gives 0; the code returns 30, outside of the interval, because its
  remainder is negative for a negative number of seconds.
\<close>

theorem secondsRemaining_before_epoch:
  "secondsRemaining (- 1000) 30 = 30
   \<and> 30 - ((- 1000 div 1000) mod 30) - 1 = (0::int)
   \<and> \<not> secondsRemaining (- 1000) 30 \<le> 30 - 1"
  by (simp add: secondsRemaining_def signed_modulo_int_def)

text \<open>
  Claim C8. For every input, \<open>normalizePeriod\<close> returns an integer between 5 and 300:
  30 when the period is absent or is not a finite number, and otherwise the floor of
  the period clamped into that interval. It has no error to return.
\<close>

theorem normalizePeriod_range:
  "5 \<le> normalizePeriod p \<and> normalizePeriod p \<le> 300
   \<and> normalizePeriod None = 30 \<and> normalizePeriod (Some NaN) = 30
   \<and> normalizePeriod (Some PosInf) = 30 \<and> normalizePeriod (Some NegInf) = 30
   \<and> normalizePeriod (Some (Finite x)) = min 300 (max 5 \<lfloor>x\<rfloor>)"
  by (simp add: normalizePeriod_def Let_def)

section \<open>Properties of the otpauth URI parser\<close>

subsection \<open>Trimming around a colon\<close>

lemma trim_eq: "trim s = rtrim (ltrim s)"
  by (simp add: trim_def ltrim_def rtrim_def)

lemma colon_not_space: "\<not> isSpace (CHR '':'')"
  by (simp add: isSpace_def)

lemma dropWhile_append_stop:
  "\<not> P y \<Longrightarrow> dropWhile P (xs @ y # ys) = dropWhile P xs @ y # ys"
  by (induction xs) auto

lemma ltrim_colon: "ltrim (pre @ CHR '':'' # post) = ltrim pre @ CHR '':'' # post"
  unfolding ltrim_def by (rule dropWhile_append_stop [of isSpace, OF colon_not_space])

lemma rtrim_colon: "rtrim (pre @ CHR '':'' # post) = pre @ CHR '':'' # rtrim post"
  unfolding rtrim_def by (simp add: dropWhile_append_stop [of isSpace, OF colon_not_space])

lemma rtrim_Cons:
  "rtrim (x # s) = (if rtrim s = [] then (if isSpace x then [] else [x]) else x # rtrim s)"
  unfolding rtrim_def by (auto simp: dropWhile_append)

lemma ltrim_rtrim: "ltrim (rtrim s) = rtrim (ltrim s)"
proof (induction s)
  case Nil
  show ?case by (simp add: ltrim_def rtrim_def)
next
  case (Cons x s)
  have l: "ltrim (x # s) = (if isSpace x then ltrim s else x # s)"
    by (simp add: ltrim_def)
  show ?case
    using Cons by (auto simp: rtrim_Cons l) (simp_all add: ltrim_def)
qed

lemma rtrim_idem: "rtrim (rtrim s) = rtrim s"
  by (simp add: rtrim_def)

lemma ltrim_idem: "ltrim (ltrim s) = ltrim s"
  by (simp add: ltrim_def)

lemma trim_rtrim: "trim (rtrim s) = trim s"
  by (simp add: trim_eq ltrim_rtrim rtrim_idem)

lemma trim_ltrim: "trim (ltrim s) = trim s"
  by (simp add: trim_eq ltrim_idem)

lemma trim_Nil_iff: "trim s = [] \<longleftrightarrow> ltrim s = []"
proof
  assume t: "trim s = []"
  show "ltrim s = []"
  proof (rule ccontr)
    assume ne: "ltrim s \<noteq> []"
    then have "\<not> isSpace (hd (ltrim s))"
      unfolding ltrim_def by (rule hd_dropWhile)
    moreover have "hd (ltrim s) \<in> set (ltrim s)"
      using ne by simp
    moreover have "\<forall>x \<in> set (ltrim s). isSpace x"
      using t by (simp add: trim_eq rtrim_def dropWhile_eq_Nil_conv)
    ultimately show False by blast
  qed
next
  assume "ltrim s = []"
  then show "trim s = []" by (simp add: trim_eq rtrim_def)
qed

lemma indexOf_append:
  assumes "c \<notin> set pre"
  shows "indexOf (pre @ c # post) c = int (length pre)"
proof -
  have "takeWhile (\<lambda>x. x \<noteq> c) (pre @ c # post) = pre"
    using assms by (induction pre) auto
  then show ?thesis by (simp add: indexOf_def)
qed

lemma slice_prefix: "slice (pre @ ys) 0 (int (length pre)) = pre"
  by (simp add: slice_def Let_def)

lemma sliceFrom_suffix: "sliceFrom (pre @ c # post) (int (length pre) + 1) = post"
  by (simp add: sliceFrom_def slice_def Let_def nat_add_distrib)

subsection \<open>The label\<close>

lemma splitLabel_colon:
  assumes "CHR '':'' \<notin> set pre"
  shows "splitLabel (pre @ CHR '':'' # post) =
     (if trim pre = []
      then \<lparr> sl_label = trim (pre @ CHR '':'' # post), sl_issuerFromLabel = None \<rparr>
      else \<lparr> sl_label = (if trim post = [] then trim (pre @ CHR '':'' # post) else trim post),
             sl_issuerFromLabel = Some (trim pre) \<rparr>)"
proof -
  let ?raw = "pre @ CHR '':'' # post"
  have cl: "trim ?raw = ltrim pre @ CHR '':'' # rtrim post"
    by (simp add: trim_eq ltrim_colon rtrim_colon)
  have ns: "CHR '':'' \<notin> set (ltrim pre)"
    using assms set_dropWhileD unfolding ltrim_def by fastforce
  have idx: "indexOf (trim ?raw) (CHR '':'') = int (length (ltrim pre))"
    unfolding cl by (rule indexOf_append [OF ns])
  have s1: "slice (trim ?raw) 0 (int (length (ltrim pre))) = ltrim pre"
    unfolding cl by (rule slice_prefix)
  have s2: "sliceFrom (trim ?raw) (int (length (ltrim pre)) + 1) = rtrim post"
    unfolding cl by (rule sliceFrom_suffix)
  show ?thesis
  proof (cases "trim pre = []")
    case True
    then have "ltrim pre = []" by (simp add: trim_Nil_iff)
    then show ?thesis using True by (simp add: splitLabel_def idx Let_def)
  next
    case False
    then have "ltrim pre \<noteq> []" by (simp add: trim_Nil_iff)
    then show ?thesis
      using False by (simp add: splitLabel_def idx s1 s2 Let_def trim_ltrim trim_rtrim)
  qed
qed

lemma parse_label:
  assumes "parseOtpauthUri h uri = Inr e" "h_URL h (trim uri) = Some url"
    "h_decodeURIComponent h (dropWhile (\<lambda>c. c = CHR ''/'') (url_pathname url)) = Some labelRaw"
  shows "p_label e = sl_label (splitLabel labelRaw)"
    and "p_issuer e =
           (case truthy (params_get (url_searchParams url) ''issuer'') of
              Some i \<Rightarrow> Some i
            | None \<Rightarrow> truthy (sl_issuerFromLabel (splitLabel labelRaw)))"
  using assms
  by (auto simp: parseOtpauthUri_def Let_def split: if_splits option.splits sum.splits)

lemma demo_decode: "base32DecodeToBytes ''JBSWY3DP'' = Inr [72, 101, 108, 108, 111]"
  by (simp add: base32DecodeToBytes_def base32_clean_def isSpace_def toUpperCase_def
        upperChar_def lookup_def alphabet_def Let_def)

lemma demo_parse_empty_account:
  "h_URL demo_host (trim ''otpauth://totp/Issuer:?secret=JBSWY3DP'') =
      Some \<lparr> url_protocol = ''otpauth:'', url_hostname = ''totp'', url_pathname = ''/Issuer:'',
             url_searchParams = [(''secret'', ''JBSWY3DP'')] \<rparr>"
  "h_decodeURIComponent demo_host (dropWhile (\<lambda>c. c = CHR ''/'') ''/Issuer:'')
      = Some (''Issuer'' @ CHR '':'' # [])"
  "parseOtpauthUri demo_host ''otpauth://totp/Issuer:?secret=JBSWY3DP''
      = Inr (demo_entry ''Issuer:'')"
proof -
  let ?uri = "''otpauth://totp/Issuer:?secret=JBSWY3DP''"
  let ?url = "\<lparr> url_protocol = ''otpauth:'', url_hostname = ''totp'', url_pathname = ''/Issuer:'',
               url_searchParams = [(''secret'', ''JBSWY3DP'')] \<rparr>"
  have t: "trim ?uri = ?uri"
    by (simp add: trim_def isSpace_def)
  show u: "h_URL demo_host (trim ?uri) = Some ?url"
    unfolding t by (simp add: demo_host_def demo_URL_def)
  show d: "h_decodeURIComponent demo_host (dropWhile (\<lambda>c. c = CHR ''/'') ''/Issuer:'')
      = Some (''Issuer'' @ CHR '':'' # [])"
    by (simp add: demo_host_def)
  have s: "splitLabel ''Issuer:''
      = \<lparr> sl_label = ''Issuer:'', sl_issuerFromLabel = Some ''Issuer'' \<rparr>"
    by (simp add: splitLabel_def trim_def isSpace_def indexOf_def slice_def sliceFrom_def Let_def)
  show "parseOtpauthUri demo_host ?uri = Inr (demo_entry ''Issuer:'')"
    using u d unfolding t
    by (simp add: parseOtpauthUri_def t toLowerCase_def lowerChar_def params_get_def truthy_def s
          demo_decode normalizeAlg_def normalizeDigits_def normalizePeriod_def Let_def
          demo_entry_def)
qed

lemma demo_parse_account:
  "h_URL demo_host (trim ''otpauth://totp/Issuer:alice?secret=JBSWY3DP'') =
      Some \<lparr> url_protocol = ''otpauth:'', url_hostname = ''totp'',
             url_pathname = ''/Issuer:alice'',
             url_searchParams = [(''secret'', ''JBSWY3DP'')] \<rparr>"
  "h_decodeURIComponent demo_host (dropWhile (\<lambda>c. c = CHR ''/'')
      (url_pathname \<lparr> url_protocol = ''otpauth:'', url_hostname = ''totp'',
             url_pathname = ''/Issuer:alice'',
             url_searchParams = [(''secret'', ''JBSWY3DP'')] \<rparr>))
      = Some (''Issuer'' @ CHR '':'' # ''alice'')"
  "parseOtpauthUri demo_host ''otpauth://totp/Issuer:alice?secret=JBSWY3DP''
      = Inr (demo_entry ''alice'')"
proof -
  let ?uri = "''otpauth://totp/Issuer:alice?secret=JBSWY3DP''"
  let ?url = "\<lparr> url_protocol = ''otpauth:'', url_hostname = ''totp'',
               url_pathname = ''/Issuer:alice'',
               url_searchParams = [(''secret'', ''JBSWY3DP'')] \<rparr>"
  have t: "trim ?uri = ?uri"
    by (simp add: trim_def isSpace_def)
  show u: "h_URL demo_host (trim ?uri) = Some ?url"
    unfolding t by (simp add: demo_host_def demo_URL_def)
  show d: "h_decodeURIComponent demo_host (dropWhile (\<lambda>c. c = CHR ''/'') (url_pathname ?url))
      = Some (''Issuer'' @ CHR '':'' # ''alice'')"
    by (simp add: demo_host_def)
  have s: "splitLabel ''Issuer:alice''
      = \<lparr> sl_label = ''alice'', sl_issuerFromLabel = Some ''Issuer'' \<rparr>"
    by (simp add: splitLabel_def trim_def isSpace_def indexOf_def slice_def sliceFrom_def Let_def)
  show "parseOtpauthUri demo_host ?uri = Inr (demo_entry ''alice'')"
    using u d unfolding t
    by (simp add: parseOtpauthUri_def t toLowerCase_def lowerChar_def params_get_def truthy_def s
          demo_decode normalizeAlg_def normalizeDigits_def normalizePeriod_def Let_def
          demo_entry_def)
qed

text \<open>
  Claim C4, as the code has it. Let the decoded path, without its leading slashes,
  be \<open>pre\<close>, a colon and \<open>post\<close>, where \<open>pre\<close> has no colon. When \<open>parseOtpauthUri\<close>
  returns an entry, the candidate issuer is \<open>pre\<close> trimmed. If it is empty, the
  whole trimmed path is the label and the label gives no issuer. Otherwise it is
  the issuer that the label gives (a non-empty parameter \<open>issuer\<close> overrides it),
  and the label is \<open>post\<close> trimmed when that is not empty; when the trimmed
  remainder is empty, the whole trimmed path stays the label.
\<close>

theorem parseOtpauthUri_label_colon:
  assumes "parseOtpauthUri h uri = Inr e" "h_URL h (trim uri) = Some url"
    and "h_decodeURIComponent h (dropWhile (\<lambda>c. c = CHR ''/'') (url_pathname url))
           = Some (pre @ CHR '':'' # post)"
    and "CHR '':'' \<notin> set pre"
  shows "p_label e =
           (if trim pre = [] \<or> trim post = [] then trim (pre @ CHR '':'' # post)
            else trim post)
       \<and> p_issuer e =
           (case truthy (params_get (url_searchParams url) ''issuer'') of
              Some i \<Rightarrow> Some i
            | None \<Rightarrow> if trim pre = [] then None else Some (trim pre))"
  using parse_label [OF assms(1,2,3)] splitLabel_colon [OF assms(4), of post]
  by (auto simp: truthy_def split: option.splits)

theorem parseOtpauthUri_label_colon_witness:
  "parseOtpauthUri demo_host ''otpauth://totp/Issuer:alice?secret=JBSWY3DP''
      = Inr (demo_entry ''alice'')
   \<and> CHR '':'' \<notin> set ''Issuer''
   \<and> p_label (demo_entry ''alice'') = trim ''alice''
   \<and> p_issuer (demo_entry ''alice'') = Some (trim ''Issuer'')"
proof -
  have c: "CHR '':'' \<notin> set ''Issuer''" by simp
  have tp: "trim ''Issuer'' \<noteq> []" "trim ''alice'' \<noteq> []"
    by (simp_all add: trim_def isSpace_def)
  show ?thesis
    using parseOtpauthUri_label_colon [OF demo_parse_account(3) demo_parse_account(1)
        demo_parse_account(2) c]
      demo_parse_account(3) c tp
    by (simp add: params_get_def truthy_def)
qed

text \<open>
  The claim as it is written fails where the remainder after the colon is empty:
  for the path \<open>Issuer:\<close> it asks for the empty label, and the code returns the
  label \<open>Issuer:\<close>.
\<close>

theorem parseOtpauthUri_label_colon_counterexample:
  "parseOtpauthUri demo_host ''otpauth://totp/Issuer:?secret=JBSWY3DP''
      = Inr (demo_entry ''Issuer:'')
   \<and> h_decodeURIComponent demo_host (dropWhile (\<lambda>c. c = CHR ''/'') ''/Issuer:'')
      = Some (''Issuer'' @ CHR '':'' # [])
   \<and> p_label (demo_entry ''Issuer:'') = ''Issuer:''
   \<and> p_label (demo_entry ''Issuer:'') \<noteq> trim []"
  using demo_parse_empty_account(2,3)
  by (simp add: demo_entry_def trim_def)

subsection \<open>The secret\<close>

lemma params_get_filtered: "params_get (filter (\<lambda>p. fst p \<noteq> k) ps) k = None"
  unfolding params_get_def by (induction ps) auto

text \<open>
  Claim C10, as the code has it. When the parameter \<open>secret\<close> of the parsed URL is
  present with the empty string as its value, \<open>parseOtpauthUri\<close> returns an error,
  never an entry, and the result is the one that the same URL without the
  parameter gives. The error is the missing-secret error when the checks that the
  code makes before it pass: the scheme is \<open>otpauth\<close>, the type is \<open>totp\<close> and the
  path decodes. When one of them fails, the error is that of the first that fails.
\<close>

theorem parseOtpauthUri_empty_secret:
  assumes "h_URL h (trim uri) = Some url"
    and "params_get (url_searchParams url) ''secret'' = Some []"
  shows "parseOtpauthUri h uri =
           Inl (if url_protocol url \<noteq> ''otpauth:'' then ProtocolMustBeOtpauth
                else if toLowerCase (url_hostname url) \<noteq> ''totp'' then OnlyTOTPSupported
                else if h_decodeURIComponent h
                          (dropWhile (\<lambda>c. c = CHR ''/'') (url_pathname url)) = None
                  then URIError
                else MissingSecretParameter)
       \<and> parseOtpauthUri (without_secret h) uri = parseOtpauthUri h uri"
  using assms
  by (auto simp: parseOtpauthUri_def without_secret_def Let_def truthy_def params_get_filtered
        split: option.splits)

theorem parseOtpauthUri_empty_secret_witness:
  "h_URL demo_host (trim ''otpauth://totp/alice?secret='') =
      Some \<lparr> url_protocol = ''otpauth:'', url_hostname = ''totp'', url_pathname = ''/alice'',
             url_searchParams = [(''secret'', [])] \<rparr>
   \<and> params_get [(''secret'', [])] ''secret'' = Some []
   \<and> parseOtpauthUri demo_host ''otpauth://totp/alice?secret='' = Inl MissingSecretParameter
   \<and> parseOtpauthUri (without_secret demo_host) ''otpauth://totp/alice?secret=''
        = Inl MissingSecretParameter"
proof -
  have t: "trim ''otpauth://totp/alice?secret='' = ''otpauth://totp/alice?secret=''"
    by (simp add: trim_def isSpace_def)
  have u: "h_URL demo_host (trim ''otpauth://totp/alice?secret='') =
      Some \<lparr> url_protocol = ''otpauth:'', url_hostname = ''totp'', url_pathname = ''/alice'',
             url_searchParams = [(''secret'', [])] \<rparr>"
    unfolding t by (simp add: demo_host_def demo_URL_def)
  have p: "params_get (url_searchParams \<lparr> url_protocol = ''otpauth:'', url_hostname = ''totp'',
             url_pathname = ''/alice'', url_searchParams = [(''secret'', [])] \<rparr>) ''secret''
           = Some []"
    by (simp add: params_get_def)
  show ?thesis
    using parseOtpauthUri_empty_secret [OF u p] u p
    by (simp add: toLowerCase_def lowerChar_def demo_host_def)
qed

text \<open>
  The claim as it is written fails: it asks for the missing-secret error for every
  URI of the scheme \<open>otpauth\<close> whose secret is empty. For the type \<open>hotp\<close> the check of
  the type comes first, and the error is that only TOTP is supported.
\<close>

theorem parseOtpauthUri_empty_secret_counterexample:
  "h_URL demo_host (trim ''otpauth://hotp/alice?secret='') =
      Some \<lparr> url_protocol = ''otpauth:'', url_hostname = ''hotp'', url_pathname = ''/alice'',
             url_searchParams = [(''secret'', [])] \<rparr>
   \<and> params_get [(''secret'', [])] ''secret'' = Some []
   \<and> parseOtpauthUri demo_host ''otpauth://hotp/alice?secret='' = Inl OnlyTOTPSupported
   \<and> parseOtpauthUri demo_host ''otpauth://hotp/alice?secret='' \<noteq> Inl MissingSecretParameter"
proof -
  have t: "trim ''otpauth://hotp/alice?secret='' = ''otpauth://hotp/alice?secret=''"
    by (simp add: trim_def isSpace_def)
  have u: "h_URL demo_host (trim ''otpauth://hotp/alice?secret='') =
      Some \<lparr> url_protocol = ''otpauth:'', url_hostname = ''hotp'', url_pathname = ''/alice'',
             url_searchParams = [(''secret'', [])] \<rparr>"
    unfolding t by (simp add: demo_host_def demo_URL_def)
  have p: "params_get [(''secret'', [])] ''secret'' = Some []"
    by (simp add: params_get_def)
  have l: "toLowerCase ''hotp'' \<noteq> ''totp''"
    by (simp add: toLowerCase_def lowerChar_def)
  have r: "parseOtpauthUri demo_host ''otpauth://hotp/alice?secret='' = Inl OnlyTOTPSupported"
    using u l unfolding t by (simp add: parseOtpauthUri_def t Let_def)
  show ?thesis
    using u p r by simp
qed

section \<open>Properties of the Base32 decoder\<close>

lemma lookup_None_iff: "lookup c = None \<longleftrightarrow> c \<notin> set alphabet"
  unfolding lookup_def by (rule map_of_zip_is_None) simp

lemma base32_loop_Inl_iff:
  "(\<exists>e. base32_loop cs bits val out = Inl e) \<longleftrightarrow> (\<exists>c \<in> set cs. c \<notin> set alphabet)"
proof (induction cs arbitrary: bits val out)
  case Nil
  show ?case by simp
next
  case (Cons ch rest)
  show ?case
  proof (cases "lookup ch")
    case None
    then have "base32_loop (ch # rest) bits val out = Inl (InvalidBase32Character ch)"
      by simp
    moreover have "ch \<notin> set alphabet"
      using None by (simp add: lookup_None_iff)
    ultimately show ?thesis by auto
  next
    case (Some v)
    then have "ch \<in> set alphabet"
      using lookup_None_iff [of ch] by auto
    then show ?thesis using Some Cons.IH by (simp add: Let_def)
  qed
qed

lemma base32_loop_error:
  "base32_loop cs bits val out = Inl e \<Longrightarrow>
     \<exists>c \<in> set cs. c \<notin> set alphabet \<and> e = InvalidBase32Character c"
proof (induction cs arbitrary: bits val out)
  case Nil
  then show ?case by simp
next
  case (Cons ch rest)
  show ?case
  proof (cases "lookup ch")
    case None
    then have "base32_loop (ch # rest) bits val out = Inl (InvalidBase32Character ch)"
      by simp
    moreover have "ch \<notin> set alphabet"
      using None by (simp add: lookup_None_iff)
    ultimately show ?thesis using Cons.prems by auto
  next
    case (Some v)
    then show ?thesis
      using Cons.prems Cons.IH by (auto simp: Let_def split: if_splits)
  qed
qed

lemma base32_loop_length:
  "base32_loop cs bits val out = Inr res \<Longrightarrow> bits < 8 \<Longrightarrow>
     length res = length out + (bits + 5 * length cs) div 8"
proof (induction cs arbitrary: bits val out)
  case Nil
  then show ?case by simp
next
  case (Cons ch rest)
  show ?case
  proof (cases "lookup ch")
    case None
    then show ?thesis using Cons.prems by simp
  next
    case (Some v)
    show ?thesis
    proof (cases "bits + 5 \<ge> 8")
      case True
      then have "base32_loop rest (bits + 5 - 8) (push_bit 5 val OR v)
          (out @ [ucast (drop_bit (bits + 5 - 8) (push_bit 5 val OR v) AND 0xff)]) = Inr res"
        using Cons.prems(1) Some by (simp add: Let_def)
      from Cons.IH [OF this] Cons.prems(2) True show ?thesis by simp
    next
      case False
      then have "base32_loop rest (bits + 5) (push_bit 5 val OR v) out = Inr res"
        using Cons.prems(1) Some by (simp add: Let_def)
      from Cons.IH [OF this] False show ?thesis by simp
    qed
  qed
qed

text \<open>
  What the decoder does for every input: it fails exactly when a character of the
  cleaned, upper-cased text is outside of the alphabet, with that character in its
  error; empty cleaned text gives no bytes; and a result has one byte for every 8
  whole bits of the text, the bits left over being dropped.
\<close>

lemma base32_decode_fails_iff:
  "(\<exists>e. base32DecodeToBytes input = Inl e)
     \<longleftrightarrow> (\<exists>c \<in> set (base32_clean input). c \<notin> set alphabet)"
  by (auto simp: base32DecodeToBytes_def Let_def base32_loop_Inl_iff)

lemma base32_decode_error:
  "base32DecodeToBytes input = Inl e \<Longrightarrow>
     \<exists>c \<in> set (base32_clean input). c \<notin> set alphabet \<and> e = InvalidBase32Character c"
  by (auto simp: base32DecodeToBytes_def Let_def split: if_splits dest: base32_loop_error)

lemma base32_decode_empty: "base32_clean input = [] \<Longrightarrow> base32DecodeToBytes input = Inr []"
  by (simp add: base32DecodeToBytes_def)

lemma base32_decode_length:
  "base32DecodeToBytes input = Inr res \<Longrightarrow>
     length res = (5 * length (base32_clean input)) div 8"
  using base32_loop_length [of "base32_clean input" 0 0 "[]" res]
  by (auto simp: base32DecodeToBytes_def Let_def split: if_splits)

lemma base32_clean_stripped: "base32_clean input = toUpperCase (base32_stripped input)"
  by (simp add: base32_clean_def base32_stripped_def)

text \<open>
  On ASCII input the cleaned text has a character outside of the alphabet exactly
  when the stripped text has one that is outside of it without regard to case.
\<close>

lemma upper_letters_in_alphabet:
  "list_all (\<lambda>n. char_of n \<in> set alphabet) [65..<(91::nat)]"
  by code_simp

lemma lower_letters:
  "list_all (\<lambda>n. char_of n \<in> set ''abcdefghijklmnopqrstuvwxyz'') [97..<(123::nat)]"
  by code_simp

lemma lower_letter_code:
  "c \<in> set ''abcdefghijklmnopqrstuvwxyz'' \<Longrightarrow>
     97 \<le> (of_char c :: nat) \<and> (of_char c :: nat) \<le> 122"
  by auto

lemma upperChar_ascii:
  assumes "isASCII c"
  shows "list_all (\<lambda>d. d \<in> set alphabet) (upperChar c) = in_alphabet_ci c"
proof (cases "97 \<le> (of_char c :: nat) \<and> (of_char c :: nat) \<le> 122")
  case True
  then have "(of_char c :: nat) - 32 \<in> set [65..<91]"
    unfolding set_upt atLeastLessThan_iff by arith
  then have u: "char_of ((of_char c :: nat) - 32) \<in> set alphabet"
    using upper_letters_in_alphabet unfolding list_all_iff by blast
  have "(of_char c :: nat) \<in> set [97..<123]"
    unfolding set_upt atLeastLessThan_iff using True by arith
  then have "char_of (of_char c :: nat) \<in> set ''abcdefghijklmnopqrstuvwxyz''"
    using lower_letters unfolding list_all_iff by blast
  then have "in_alphabet_ci c" by (simp add: in_alphabet_ci_def)
  then show ?thesis using True u by (simp add: upperChar_def Let_def)
next
  case False
  then have "c \<notin> set ''abcdefghijklmnopqrstuvwxyz''"
    using lower_letter_code [of c] by blast
  moreover have "upperChar c = [c]"
    using False assms by (auto simp: upperChar_def Let_def isASCII_def)
  ultimately show ?thesis by (simp add: in_alphabet_ci_def)
qed

lemma set_base32_stripped: "set (base32_stripped input) \<subseteq> set input"
proof -
  have "set (dropWhile (\<lambda>c. c = CHR ''='') (rev (filter (\<lambda>c. \<not> isSpace c) input)))
      \<subseteq> set input"
    using set_dropWhileD by fastforce
  then show ?thesis by (simp add: base32_stripped_def)
qed

lemma base32_decode_fails_iff_ascii:
  assumes "list_all isASCII input"
  shows "(\<exists>e. base32DecodeToBytes input = Inl e)
       \<longleftrightarrow> (\<exists>c \<in> set (base32_stripped input). \<not> in_alphabet_ci c)"
proof -
  have a: "\<And>c. c \<in> set (base32_stripped input) \<Longrightarrow> isASCII c"
    using assms set_base32_stripped [of input] by (auto simp: list_all_iff)
  have "(\<exists>d \<in> set (base32_clean input). d \<notin> set alphabet)
      \<longleftrightarrow> (\<exists>c \<in> set (base32_stripped input).
             \<not> list_all (\<lambda>d. d \<in> set alphabet) (upperChar c))"
    by (auto simp: base32_clean_stripped toUpperCase_def list_all_iff)
  also have "\<dots> \<longleftrightarrow> (\<exists>c \<in> set (base32_stripped input). \<not> in_alphabet_ci c)"
    using a upperChar_ascii by blast
  finally show ?thesis by (simp add: base32_decode_fails_iff)
qed

text \<open>
  Claim C6. The claim asks of every input string that the decoder fails exactly
  when a character that remains after stripping lies outside of the alphabet,
  whatever its case. The sharp s (code unit \<open>0xDF\<close>) remains, lies outside of the
  alphabet, and is decoded all the same: upper-casing turns it into \<open>SS\<close>, two
  letters of the alphabet, whose ten bits give the byte \<open>0x94\<close>.
\<close>

theorem base32DecodeToBytes_sharp_s:
  "base32_stripped [CHR 0xDF] = [CHR 0xDF] \<and> \<not> in_alphabet_ci (CHR 0xDF)
   \<and> base32DecodeToBytes [CHR 0xDF] = Inr [0x94]"
  by (simp add: base32_stripped_def in_alphabet_ci_def alphabet_def isSpace_def
        base32DecodeToBytes_def base32_clean_def toUpperCase_def upperChar_def lookup_def
        Let_def)

section \<open>Properties of the record store\<close>

lemma mkRecord_simps [simp]:
  "r_id (mkRecord t i a n) = i" "r_order (mkRecord t i a n) = n"
  by (simp_all add: mkRecord_def)

lemma store_get_None_iff: "store_get s k = None \<longleftrightarrow> k \<notin> r_id ` set s"
  by (auto simp: store_get_def find_None_iff)

lemma store_get_member:
  "distinct (map r_id s) \<Longrightarrow> r \<in> set s \<Longrightarrow> store_get s (r_id r) = Some r"
  unfolding store_get_def
  by (induction s) (auto simp: image_iff)

lemma mset_store_put:
  "mset (store_put r s) = add_mset r (mset (filter (\<lambda>x. r_id x \<noteq> r_id r) s))"
  by (simp add: store_put_def)

text \<open>The order that \<open>addSecret\<close> assigns: 1 in an empty store, the maximum plus 1 otherwise.\<close>

lemma addSecret_empty: "addSecret t i a [] = Inr (mkRecord t i a 1, [mkRecord t i a 1])"
  by (simp add: addSecret_def listSecrets_def store_getAll_def store_add_def store_get_def
        mkRecord_def Let_def)

lemma fold_max_Max: "fold max xs (x::int) = Max (set (x # xs))"
  by (rule Max.set_eq_fold [symmetric])

lemma addSecret_fresh:
  assumes "i \<notin> r_id ` set s" "s \<noteq> []"
  shows "addSecret t i a s =
           Inr (mkRecord t i a (Max (r_order ` set s) + 1),
                insort_key r_id (mkRecord t i a (Max (r_order ` set s) + 1)) s)"
proof -
  have g: "store_get s i = None"
    using assms(1) by (simp add: store_get_None_iff)
  obtain x xs where m: "map r_order (sort_key r_order s) = x # xs"
  proof (cases "map r_order (sort_key r_order s)")
    case Nil
    then have "length (sort_key r_order s) = 0" by simp
    then show ?thesis using assms(2) by auto
  next
    case (Cons x xs)
    then show ?thesis by (rule that)
  qed
  then have "fold max xs x = Max (set (map r_order (sort_key r_order s)))"
    by (simp add: fold_max_Max)
  also have "\<dots> = Max (r_order ` set s)" by simp
  finally have "fold max xs x = Max (r_order ` set s)" .
  then show ?thesis
    using g m
    by (simp add: addSecret_def listSecrets_def store_getAll_def store_add_def Let_def
          mkRecord_def)
qed

text \<open>
  The listing is sorted by order; where the orders differ, it is the one sorted
  arrangement of the store.
\<close>

lemma listSecrets_sorted: "sorted (map r_order (listSecrets s))"
  by (simp add: listSecrets_def)

lemma mset_listSecrets: "mset (listSecrets s) = mset s"
  by (simp add: listSecrets_def store_getAll_def)

lemma filter_eq_single:
  "distinct xs \<Longrightarrow> k \<in> set xs \<Longrightarrow> filter (\<lambda>x. k = x) xs = [k]"
proof (induction xs)
  case Nil
  then show ?case by simp
next
  case (Cons a xs)
  show ?case
  proof (cases "k = a")
    case True
    then have "filter (\<lambda>x. k = x) xs = []"
      using Cons.prems(1) by (auto simp: filter_empty_conv)
    with True show ?thesis by simp
  next
    case False
    then show ?thesis using Cons by auto
  qed
qed

lemma sort_key_distinct_unique:
  assumes "mset ys = mset xs" "distinct (map f xs)" "sorted (map f ys)"
  shows "sort_key f xs = ys"
proof (rule properties_for_sort_key [OF assms(1) _ assms(3)])
  fix k assume k: "k \<in> set ys"
  have inj: "inj_on f (set xs)" using assms(2) by (simp add: distinct_map)
  have dx: "distinct xs" using assms(2) by (simp add: distinct_map)
  have dy: "distinct ys" using dx assms(1) by (metis mset_eq_imp_distinct_iff)
  have sy: "set ys = set xs" using assms(1) by (metis mset_eq_setD)
  have "filter (\<lambda>x. f k = f x) ys = filter (\<lambda>x. k = x) ys"
    by (rule filter_cong) (use inj sy k in \<open>auto dest: inj_onD\<close>)
  moreover have "filter (\<lambda>x. f k = f x) xs = filter (\<lambda>x. k = x) xs"
    by (rule filter_cong) (use inj sy k in \<open>auto dest: inj_onD\<close>)
  moreover have "filter (\<lambda>x. k = x) ys = [k]"
    using dy k by (rule filter_eq_single)
  moreover have "filter (\<lambda>x. k = x) xs = [k]"
    using dx k sy by (simp add: filter_eq_single)
  ultimately show "filter (\<lambda>x. f k = f x) ys = filter (\<lambda>x. f k = f x) xs"
    by simp
qed

lemma listSecrets_unique:
  assumes "mset ys = mset s" "distinct (map r_order ys)" "sorted (map r_order ys)"
  shows "listSecrets s = ys"
proof -
  have "mset (map r_order s) = mset (map r_order ys)"
    using assms(1) by simp
  then have "distinct (map r_order s)"
    using assms(2) by (metis mset_eq_imp_distinct_iff)
  then show ?thesis
    unfolding listSecrets_def store_getAll_def
    by (rule sort_key_distinct_unique [OF assms(1) _ assms(3)])
qed

text \<open>
  Claim C7. From the empty store, three additions with three different fresh
  identifiers succeed and give the records the orders 1, 2 and 3; the listing is
  then \<open>[A, B, C]\<close>. After the reordering \<open>[(C.id, 0)]\<close> the listing is \<open>[C, A, B]\<close>,
  where \<open>C\<close> now has the order 0 and the time of the reordering as its update time.
\<close>

theorem add_list_reorder:
  assumes d: "distinct [idA, idB, idC]"
  shows "\<exists>rA rB rC s1 s2 s3.
     addSecret tA idA A [] = Inr (rA, s1) \<and> addSecret tB idB B s1 = Inr (rB, s2)
     \<and> addSecret tC idC C s2 = Inr (rC, s3)
     \<and> r_id rA = idA \<and> r_id rB = idB \<and> r_id rC = idC
     \<and> r_order rA = 1 \<and> r_order rB = 2 \<and> r_order rC = 3
     \<and> listSecrets s3 = [rA, rB, rC]
     \<and> listSecrets (reorderSecrets tR [(r_id rC, 0)] s3)
         = [rC\<lparr> r_order := 0, r_updatedAt := tR \<rparr>, rA, rB]"
proof -
  define rA where "rA = mkRecord tA idA A 1"
  define rB where "rB = mkRecord tB idB B 2"
  define rC where "rC = mkRecord tC idC C 3"
  define rC' where "rC' = rC\<lparr> r_order := 0, r_updatedAt := tR \<rparr>"
  define s1 where "s1 = [rA]"
  define s2 where "s2 = insort_key r_id rB s1"
  define s3 where "s3 = insort_key r_id rC s2"
  have ids: "r_id rA = idA" "r_id rB = idB" "r_id rC = idC" "r_id rC' = idC"
    by (simp_all add: rA_def rB_def rC_def rC'_def)
  have ords: "r_order rA = 1" "r_order rB = 2" "r_order rC = 3" "r_order rC' = 0"
    by (simp_all add: rA_def rB_def rC_def rC'_def)
  have a1: "addSecret tA idA A [] = Inr (rA, s1)"
    by (simp add: addSecret_empty rA_def s1_def)
  have f1: "idB \<notin> r_id ` set s1" "s1 \<noteq> []" "Max (r_order ` set s1) + 1 = 2"
    using d by (auto simp: s1_def ids ords)
  have a2: "addSecret tB idB B s1 = Inr (rB, s2)"
    using addSecret_fresh [OF f1(1,2), of tB B]
    unfolding f1(3) rB_def [symmetric] s2_def [symmetric] .
  have set2: "set s2 = {rA, rB}"
    by (auto simp: s2_def s1_def)
  have f2: "idC \<notin> r_id ` set s2" "s2 \<noteq> []" "Max (r_order ` set s2) + 1 = 3"
    using d set2 by (auto simp: ids ords)
  have a3: "addSecret tC idC C s2 = Inr (rC, s3)"
    using addSecret_fresh [OF f2(1,2), of tC C]
    unfolding f2(3) rC_def [symmetric] s3_def [symmetric] .
  have m3: "mset s3 = mset [rA, rB, rC]"
    by (simp add: s3_def s2_def s1_def)
  have l3: "listSecrets s3 = [rA, rB, rC]"
    by (rule listSecrets_unique) (simp_all add: m3 ords)
  have "mset (map r_id s3) = mset (map r_id [rA, rB, rC])"
    using m3 by (metis mset_map)
  moreover have "distinct (map r_id [rA, rB, rC])"
    using d by (simp add: ids)
  ultimately have ds3: "distinct (map r_id s3)"
    by (metis mset_eq_imp_distinct_iff)
  have "rC \<in> set s3"
    by (simp add: s3_def set_insort_key)
  then have g: "store_get s3 idC = Some rC"
    using store_get_member [OF ds3, of rC] by (simp add: ids)
  have re: "reorderSecrets tR [(r_id rC, 0)] s3 = store_put rC' s3"
    by (simp add: reorderSecrets_def reorder_one_def ids g rC'_def)
  have "mset (filter (\<lambda>x. r_id x \<noteq> idC) s3)
      = filter_mset (\<lambda>x. r_id x \<noteq> idC) (mset [rA, rB, rC])"
    using m3 by (metis mset_filter)
  also have "\<dots> = mset [rA, rB]"
    using d by (simp add: ids)
  finally have "mset (store_put rC' s3) = mset [rC', rA, rB]"
    by (simp add: mset_store_put ids)
  then have "listSecrets (store_put rC' s3) = [rC', rA, rB]"
    by (intro listSecrets_unique) (simp_all add: ords)
  then show ?thesis
    using a1 a2 a3 l3 re ids ords unfolding rC'_def
    by (intro exI [of _ rA] exI [of _ rB] exI [of _ rC] exI [of _ s1] exI [of _ s2]
          exI [of _ s3]) simp
qed

theorem add_list_reorder_witness:
  "distinct [''0a'', ''0b'', ''0c''] \<and> (\<exists>rA rB rC s1 s2 s3.
     addSecret 100 ''0a'' (demo_input ''A'') [] = Inr (rA, s1)
     \<and> addSecret 200 ''0b'' (demo_input ''B'') s1 = Inr (rB, s2)
     \<and> addSecret 300 ''0c'' (demo_input ''C'') s2 = Inr (rC, s3)
     \<and> r_id rA = ''0a'' \<and> r_id rB = ''0b'' \<and> r_id rC = ''0c''
     \<and> r_order rA = 1 \<and> r_order rB = 2 \<and> r_order rC = 3
     \<and> listSecrets s3 = [rA, rB, rC]
     \<and> listSecrets (reorderSecrets 400 [(r_id rC, 0)] s3)
         = [rC\<lparr> r_order := 0, r_updatedAt := 400 \<rparr>, rA, rB])"
  using add_list_reorder [of "''0a''" "''0b''" "''0c''" 100 "demo_input ''A''"
      200 "demo_input ''B''" 300 "demo_input ''C''" 400]
  by simp

section \<open>Properties of the session\<close>






lemma ensureSessionKey_key:
  "ensureSessionKey rnd st = (Inr (), st1) \<Longrightarrow> sessionKey st1 \<noteq> None"
  by (auto simp: ensureSessionKey_def Let_def split: option.splits sum.splits)












end
